theory Spec2Isabelle
  imports Main "HOL-Library.Word"
begin

section \<open>The queue classes of ProducerConsumer.h\<close>

text \<open>
  The payload and every \<^verbatim>\<open>int\<close> of the header is a 32-bit word; the comparison of
  two of them is the signed one.
  \<^verbatim>\<open>std::queue<int>\<close> is held as a list whose head is the front of the container:
  \<^verbatim>\<open>push\<close> appends at the back, \<^verbatim>\<open>pop\<close> drops the head, \<^verbatim>\<open>back()\<close> reads the last
  element.
\<close>

type_synonym cint = "32 word"

text \<open>
  What the C++ standard leaves undefined is a value of its own, so that a path of the
  source that reaches it is a branch of the model:
  \<^item> \<open>EmptyContainerAccess\<close>: \<^verbatim>\<open>queue.back()\<close> and \<^verbatim>\<open>queue.pop()\<close> on an empty
    \<^verbatim>\<open>std::queue\<close>;
  \<^item> \<open>MissingReturn\<close>: control flows off the end of a function that returns \<^verbatim>\<open>int\<close>.
\<close>

datatype fault = EmptyContainerAccess | MissingReturn

text \<open>
  An \<^verbatim>\<open>IQueue*\<close> points at a \<^verbatim>\<open>Queue\<close>, or at a decorator that holds the pointer to the
  next inner object. Nothing but the chain itself reaches the inner objects, so an object
  is held together with the one it points at: the constructor is the dynamic type, the
  argument of a decorator is the pointee of its \<^verbatim>\<open>pQueue\<close>.
\<close>

datatype IQueue =
    Queue "cint list"
  | SafeQueue IQueue
  | SizeLimitedQueue IQueue cint

text \<open>
  \<^verbatim>\<open>empty()\<close>: \<^verbatim>\<open>Queue\<close> asks the container, \<^verbatim>\<open>QueueDecorator\<close> forwards.
\<close>

fun IQueue_empty :: "IQueue \<Rightarrow> bool" where
  "IQueue_empty (Queue q) = (q = [])"
| "IQueue_empty (SafeQueue p) = IQueue_empty p"
| "IQueue_empty (SizeLimitedQueue p maxSize) = IQueue_empty p"

text \<open>
  \<^verbatim>\<open>size()\<close>: \<^verbatim>\<open>static_cast<int>(queue.size())\<close> keeps the low 32 bits of the length.
\<close>

fun IQueue_size :: "IQueue \<Rightarrow> cint" where
  "IQueue_size (Queue q) = of_nat (length q)"
| "IQueue_size (SafeQueue p) = IQueue_size p"
| "IQueue_size (SizeLimitedQueue p maxSize) = IQueue_size p"

text \<open>
  \<^verbatim>\<open>full()\<close>: \<^verbatim>\<open>Queue\<close> inherits \<^verbatim>\<open>IQueue::full\<close>, which returns false;
  \<^verbatim>\<open>SizeLimitedQueue::full\<close> is
  \<^verbatim>\<open>QueueDecorator::size() >= maxSize || QueueDecorator::full()\<close>, a signed comparison.
\<close>

fun IQueue_full :: "IQueue \<Rightarrow> bool" where
  "IQueue_full (Queue q) = False"
| "IQueue_full (SafeQueue p) = IQueue_full p"
| "IQueue_full (SizeLimitedQueue p maxSize) = (maxSize \<le>s IQueue_size p \<or> IQueue_full p)"

text \<open>
  \<^verbatim>\<open>produce(value)\<close> returns the boolean result and the chain after the call.
\<close>

fun IQueue_produce :: "IQueue \<Rightarrow> cint \<Rightarrow> bool \<times> IQueue" where
  "IQueue_produce (Queue q) v = (True, Queue (q @ [v]))"
| "IQueue_produce (SafeQueue p) v =
     (case IQueue_produce p v of (r, p') \<Rightarrow> (r, SafeQueue p'))"
| "IQueue_produce (SizeLimitedQueue p maxSize) v =
     (if IQueue_full (SizeLimitedQueue p maxSize) then (False, SizeLimitedQueue p maxSize)
      else case IQueue_produce p v of (r, p') \<Rightarrow> (r, SizeLimitedQueue p' maxSize))"

text \<open>
  \<^verbatim>\<open>consume(int& value)\<close> takes the content of the caller's variable and returns the
  boolean result, the content of the variable after the call and the chain after the
  call. \<^verbatim>\<open>Queue::consume\<close> on an empty container is undefined at its first statement.
\<close>

fun IQueue_consume :: "IQueue \<Rightarrow> cint \<Rightarrow> fault + (bool \<times> cint \<times> IQueue)" where
  "IQueue_consume (Queue q) v =
     (if q = [] then Inl EmptyContainerAccess else Inr (True, last q, Queue (tl q)))"
| "IQueue_consume (SafeQueue p) v =
     (if IQueue_empty p then Inr (False, v, SafeQueue p)
      else case IQueue_consume p v of
             Inl e \<Rightarrow> Inl e
           | Inr (r, v', p') \<Rightarrow> Inr (r, v', SafeQueue p'))"
| "IQueue_consume (SizeLimitedQueue p maxSize) v =
     (case IQueue_consume p v of
        Inl e \<Rightarrow> Inl e
      | Inr (r, v', p') \<Rightarrow> Inr (r, v', SizeLimitedQueue p' maxSize))"

subsection \<open>The constructor of the size limit\<close>

text \<open>
  \<^verbatim>\<open>SizeLimitedQueue(IQueue* pQueue, int maxSize)\<close> stores its two arguments and tests
  nothing. The header throws nowhere; the error a result could carry is the configuration
  error of the design document.
\<close>

datatype exception = ConfigurationError

definition SizeLimitedQueue_new :: "IQueue \<Rightarrow> cint \<Rightarrow> exception + IQueue" where
  "SizeLimitedQueue_new p maxSize = Inr (SizeLimitedQueue p maxSize)"

subsection \<open>The chain and its container\<close>

text \<open>
  Every chain ends in one \<^verbatim>\<open>Queue\<close>. \<open>container\<close> reads the \<^verbatim>\<open>std::queue\<close> of that
  object and \<open>with_container\<close> replaces it, leaving the decorators as they are.
\<close>

fun container :: "IQueue \<Rightarrow> cint list" where
  "container (Queue q) = q"
| "container (SafeQueue p) = container p"
| "container (SizeLimitedQueue p maxSize) = container p"

fun with_container :: "IQueue \<Rightarrow> cint list \<Rightarrow> IQueue" where
  "with_container (Queue q) xs = Queue xs"
| "with_container (SafeQueue p) xs = SafeQueue (with_container p xs)"
| "with_container (SizeLimitedQueue p maxSize) xs = SizeLimitedQueue (with_container p xs) maxSize"

text \<open>
  A number of elements is within the capacity of a chain when it does not exceed the
  \<^verbatim>\<open>maxSize\<close> of any \<^verbatim>\<open>SizeLimitedQueue\<close> in it.
\<close>

fun within_capacity :: "nat \<Rightarrow> IQueue \<Rightarrow> bool" where
  "within_capacity n (Queue q) = True"
| "within_capacity n (SafeQueue p) = within_capacity n p"
| "within_capacity n (SizeLimitedQueue p maxSize) = (int n \<le> sint maxSize \<and> within_capacity n p)"

subsection \<open>Calls in a row\<close>

text \<open>
  \<open>produce_all\<close> calls \<^verbatim>\<open>produce\<close> with each value of a list in turn and collects the
  results; \<open>consume_times n\<close> calls \<^verbatim>\<open>consume\<close> \<open>n\<close> times on the same variable and
  stops at the first call that is undefined.
\<close>

fun produce_all :: "IQueue \<Rightarrow> cint list \<Rightarrow> bool list \<times> IQueue" where
  "produce_all p [] = ([], p)"
| "produce_all p (v # vs) =
     (case IQueue_produce p v of (r, p') \<Rightarrow>
        (case produce_all p' vs of (rs, p'') \<Rightarrow> (r # rs, p'')))"

fun consume_times :: "nat \<Rightarrow> IQueue \<Rightarrow> cint \<Rightarrow> fault + (bool list \<times> IQueue)" where
  "consume_times 0 p v = Inr ([], p)"
| "consume_times (Suc n) p v =
     (case IQueue_consume p v of
        Inl e \<Rightarrow> Inl e
      | Inr (r, v', p') \<Rightarrow>
          (case consume_times n p' v' of
             Inl e \<Rightarrow> Inl e
           | Inr (rs, p'') \<Rightarrow> Inr (r # rs, p'')))"

section \<open>The strategies\<close>

text \<open>
  \<^verbatim>\<open>ProduceConsumeStrategy\<close> holds the pointer to the queue and the stop flag; the pointee
  is held in the field, as in a decorator. The mutex is not a field of the model: every
  call on the queue is made with the lock held, so it is one step that no other thread
  interleaves.
\<close>

record ProduceConsumeStrategy =
  pQueue :: IQueue
  stop :: bool

definition ProduceConsumeStrategy_new :: "IQueue \<Rightarrow> ProduceConsumeStrategy" where
  "ProduceConsumeStrategy_new p = \<lparr>pQueue = p, stop = False\<rparr>"

definition setStop ::
  "bool \<Rightarrow> 'a ProduceConsumeStrategy_scheme \<Rightarrow> 'a ProduceConsumeStrategy_scheme" where
  "setStop b s = s\<lparr>stop := b\<rparr>"

subsection \<open>BruteForceProduceConsume\<close>

text \<open>
  The loops run with no other thread touching the queue or the flag; a loop that never
  leaves is \<open>None\<close>. The third argument is the local flag of the loop.
\<close>

partial_function (option) BruteForce_produce_loop ::
  "cint \<Rightarrow> ProduceConsumeStrategy \<Rightarrow> bool \<Rightarrow> ProduceConsumeStrategy option" where
  "BruteForce_produce_loop v s produced =
     (if \<not> stop s \<and> \<not> produced
      then BruteForce_produce_loop v (s\<lparr>pQueue := snd (IQueue_produce (pQueue s) v)\<rparr>)
             (fst (IQueue_produce (pQueue s) v))
      else Some s)"

definition BruteForceProduceConsume_produce ::
  "cint \<Rightarrow> ProduceConsumeStrategy \<Rightarrow> ProduceConsumeStrategy option" where
  "BruteForceProduceConsume_produce v s = BruteForce_produce_loop v s False"

partial_function (option) BruteForce_consume_loop ::
  "ProduceConsumeStrategy \<Rightarrow> cint \<Rightarrow> bool \<Rightarrow>
   (fault + cint \<times> ProduceConsumeStrategy) option" where
  "BruteForce_consume_loop s consumedValue consumed =
     (if \<not> stop s \<and> \<not> consumed
      then (case IQueue_consume (pQueue s) consumedValue of
              Inl e \<Rightarrow> Some (Inl e)
            | Inr (r, v', p') \<Rightarrow> BruteForce_consume_loop (s\<lparr>pQueue := p'\<rparr>) v' r)
      else Some (Inr (consumedValue, s)))"

text \<open>
  \<^verbatim>\<open>consume\<close> declares \<^verbatim>\<open>bool consumed;\<close> with no initialiser and reads it in the first
  test of the loop: what the variable holds on entry is the first argument.
\<close>

definition BruteForceProduceConsume_consume ::
  "bool \<Rightarrow> ProduceConsumeStrategy \<Rightarrow> (fault + cint \<times> ProduceConsumeStrategy) option" where
  "BruteForceProduceConsume_consume consumed s = BruteForce_consume_loop s 0 consumed"

subsection \<open>SleepProduceConsume\<close>

text \<open>
  The sleep policy is \<^verbatim>\<open>std::this_thread::yield\<close> unless \<^verbatim>\<open>setSleepStrategy\<close> replaces
  it; the builder binds \<^verbatim>\<open>sleep_for\<close> to a number of microseconds. Calling the policy
  suspends the caller and changes nothing of the state.
\<close>

datatype SleepStrategy = this_thread_yield | sleep_for_microseconds "64 word"

record SleepProduceConsume = ProduceConsumeStrategy +
  sleep :: SleepStrategy

definition SleepProduceConsume_new :: "IQueue \<Rightarrow> SleepProduceConsume" where
  "SleepProduceConsume_new p = \<lparr>pQueue = p, stop = False, sleep = this_thread_yield\<rparr>"

definition setSleepStrategy :: "SleepStrategy \<Rightarrow> SleepProduceConsume \<Rightarrow> SleepProduceConsume" where
  "setSleepStrategy strategy s = s\<lparr>sleep := strategy\<rparr>"

partial_function (option) SleepProduceConsume_produce ::
  "cint \<Rightarrow> SleepProduceConsume \<Rightarrow> SleepProduceConsume option" where
  "SleepProduceConsume_produce v s =
     (if \<not> stop s
      then (if fst (IQueue_produce (pQueue s) v)
            then Some (s\<lparr>pQueue := snd (IQueue_produce (pQueue s) v)\<rparr>)
            else SleepProduceConsume_produce v
                   (s\<lparr>pQueue := snd (IQueue_produce (pQueue s) v)\<rparr>))
      else Some s)"

text \<open>
  \<^verbatim>\<open>consume\<close> has no \<^verbatim>\<open>return\<close> after its loop: once the flag is read as set, control
  reaches the closing brace of a function returning \<^verbatim>\<open>int\<close>.
\<close>

partial_function (option) Sleep_consume_loop ::
  "SleepProduceConsume \<Rightarrow> cint \<Rightarrow> (fault + cint \<times> SleepProduceConsume) option" where
  "Sleep_consume_loop s consumedValue =
     (if \<not> stop s
      then (case IQueue_consume (pQueue s) consumedValue of
              Inl e \<Rightarrow> Some (Inl e)
            | Inr (r, v', p') \<Rightarrow>
                if r then Some (Inr (v', s\<lparr>pQueue := p'\<rparr>))
                else Sleep_consume_loop (s\<lparr>pQueue := p'\<rparr>) v')
      else Some (Inl MissingReturn))"

definition SleepProduceConsume_consume ::
  "SleepProduceConsume \<Rightarrow> (fault + cint \<times> SleepProduceConsume) option" where
  "SleepProduceConsume_consume s = Sleep_consume_loop s 0"

subsection \<open>WaitProduceConsume\<close>

text \<open>
  A \<^verbatim>\<open>std::condition_variable\<close> is the list of the threads blocked in \<^verbatim>\<open>wait\<close> on it,
  the longest-waiting first. \<^verbatim>\<open>notify_one\<close> releases one of them and does nothing when
  there is none. \<^verbatim>\<open>wait(locker, pred)\<close> is \<^verbatim>\<open>while (!pred()) wait(locker);\<close>: the
  caller evaluates the predicate with the lock held, returns when it holds, and
  otherwise joins the list of the condition variable and gives up the lock.
\<close>

type_synonym thread = nat

type_synonym condition_variable = "thread list"

definition notify_one :: "condition_variable \<Rightarrow> condition_variable" where
  "notify_one cv = tl cv"

definition wait_on :: "thread \<Rightarrow> condition_variable \<Rightarrow> condition_variable" where
  "wait_on t cv = cv @ [t]"

record WaitProduceConsume = ProduceConsumeStrategy +
  onConsumeFromFull :: condition_variable
  onProduceToEmpty :: condition_variable

definition WaitProduceConsume_new :: "IQueue \<Rightarrow> WaitProduceConsume" where
  "WaitProduceConsume_new p =
     \<lparr>pQueue = p, stop = False, onConsumeFromFull = [], onProduceToEmpty = []\<rparr>"

datatype wait_status = Returned | Blocked

text \<open>The predicate that \<^verbatim>\<open>produce\<close> hands to \<^verbatim>\<open>onProduceToEmpty.wait\<close>.\<close>

definition produce_pred :: "cint \<Rightarrow> WaitProduceConsume \<Rightarrow> bool \<times> WaitProduceConsume" where
  "produce_pred v s =
     (if stop s then (True, s)
      else let wasEmpty = IQueue_empty (pQueue s);
               (r, p') = IQueue_produce (pQueue s) v;
               s' = s\<lparr>pQueue := p'\<rparr>
           in if r
              then (True, if wasEmpty
                          then s'\<lparr>onProduceToEmpty := notify_one (onProduceToEmpty s')\<rparr>
                          else s')
              else (False, s'))"

definition WaitProduceConsume_produce ::
  "thread \<Rightarrow> cint \<Rightarrow> WaitProduceConsume \<Rightarrow> wait_status \<times> WaitProduceConsume" where
  "WaitProduceConsume_produce t v s =
     (case produce_pred v s of
        (True, s') \<Rightarrow> (Returned, s')
      | (False, s') \<Rightarrow> (Blocked, s'\<lparr>onProduceToEmpty := wait_on t (onProduceToEmpty s')\<rparr>))"

text \<open>
  The predicate that \<^verbatim>\<open>consume\<close> hands to \<^verbatim>\<open>onProduceToEmpty.wait\<close>; the second argument
  is the captured \<^verbatim>\<open>consumedValue\<close>.
\<close>

definition consume_pred ::
  "WaitProduceConsume \<Rightarrow> cint \<Rightarrow> fault + (bool \<times> cint \<times> WaitProduceConsume)" where
  "consume_pred s consumedValue =
     (if stop s then Inr (True, consumedValue, s)
      else let wasFull = IQueue_full (pQueue s)
           in case IQueue_consume (pQueue s) consumedValue of
                Inl e \<Rightarrow> Inl e
              | Inr (r, v', p') \<Rightarrow>
                  let s' = s\<lparr>pQueue := p'\<rparr>
                  in if r
                     then Inr (True, v',
                            if wasFull
                            then s'\<lparr>onConsumeFromFull := notify_one (onConsumeFromFull s')\<rparr>
                            else s')
                     else Inr (False, v', s'))"

text \<open>
  \<^verbatim>\<open>consume\<close>: \<open>Returned\<close> comes with the returned \<^verbatim>\<open>consumedValue\<close>, \<open>Blocked\<close> with
  what the variable holds while the thread waits.
\<close>

definition WaitProduceConsume_consume ::
  "thread \<Rightarrow> WaitProduceConsume \<Rightarrow> fault + (wait_status \<times> cint \<times> WaitProduceConsume)" where
  "WaitProduceConsume_consume t s =
     (case consume_pred s 0 of
        Inl e \<Rightarrow> Inl e
      | Inr (True, v', s') \<Rightarrow> Inr (Returned, v', s')
      | Inr (False, v', s') \<Rightarrow>
          Inr (Blocked, v', s'\<lparr>onProduceToEmpty := wait_on t (onProduceToEmpty s')\<rparr>))"

section \<open>The tester and its builder\<close>

text \<open>
  \<^verbatim>\<open>std::unique_ptr<ProduceConsumeStrategy>\<close> is \<open>None\<close> for \<^verbatim>\<open>nullptr\<close> and otherwise the
  object with its dynamic type. The strategy that \<^verbatim>\<open>setStrategy\<close> makes points at the
  tester's own \<^verbatim>\<open>requestsQueue\<close>.
\<close>

datatype Strategy =
    BruteForce ProduceConsumeStrategy
  | Sleep SleepProduceConsume
  | Wait WaitProduceConsume

record ProducerConsumerTester =
  requestsQueue :: "cint list"
  producerSleepTime :: cint
  strategy :: "Strategy option"

definition ProducerConsumerTester_new :: ProducerConsumerTester where
  "ProducerConsumerTester_new = \<lparr>requestsQueue = [], producerSleepTime = 100, strategy = None\<rparr>"

record ProducerConsumerTesterBuilder =
  builded :: ProducerConsumerTester

definition setStrategy :: "ProducerConsumerTesterBuilder \<Rightarrow> ProducerConsumerTesterBuilder" where
  "setStrategy b =
     b\<lparr>builded := (builded b)\<lparr>strategy :=
         Some (Sleep (setSleepStrategy (sleep_for_microseconds 100)
                        (SleepProduceConsume_new (Queue (requestsQueue (builded b))))))\<rparr>\<rparr>"

definition setProducerSleepTime ::
  "cint \<Rightarrow> ProducerConsumerTesterBuilder \<Rightarrow> ProducerConsumerTesterBuilder" where
  "setProducerSleepTime t b = b\<lparr>builded := (builded b)\<lparr>producerSleepTime := t\<rparr>\<rparr>"

section \<open>Facts about the chain\<close>

lemma IQueue_empty_container: "IQueue_empty p = (container p = [])"
  by (induction p) simp_all

lemma IQueue_size_container: "IQueue_size p = of_nat (length (container p))"
  by (induction p) simp_all

lemma container_with_container [simp]: "container (with_container p xs) = xs"
  by (induction p) simp_all

lemma with_container_same [simp]: "with_container p (container p) = p"
  by (induction p) simp_all

lemma with_container_twice [simp]: "with_container (with_container p xs) ys = with_container p ys"
  by (induction p) simp_all

lemma IQueue_produce_container:
  "IQueue_produce p v =
     (if IQueue_full p then (False, p) else (True, with_container p (container p @ [v])))"
  by (induction p) (simp_all split: prod.splits)

lemma IQueue_consume_container:
  "container p \<noteq> [] \<Longrightarrow>
   IQueue_consume p v = Inr (True, last (container p), with_container p (tl (container p)))"
  by (induction p) (simp_all add: IQueue_empty_container)

lemma IQueue_consume_fails_unchanged:
  "IQueue_consume p v = Inr (False, v', p') \<Longrightarrow> v' = v \<and> p' = p"
  by (induction p arbitrary: v' p') (auto split: if_splits sum.splits)

lemma SafeQueue_consume_no_fault: "\<exists>r. IQueue_consume (SafeQueue p) v = Inr r"
  by (cases "IQueue_empty p") (auto simp: IQueue_empty_container IQueue_consume_container)

lemma sint_of_nat_small: "int n < 2 ^ 31 \<Longrightarrow> sint (of_nat n :: cint) = int n"
  by (simp add: signed_of_nat signed_take_bit_int_eq_self)

lemma of_nat_nat_sint: "0 \<le>s K \<Longrightarrow> of_nat (nat (sint K)) = (K :: cint)"
  by (simp add: word_sle_eq)

lemma sint_cint_less: "sint (K :: cint) < 2 ^ 31"
  using sint_lt [of K] by simp

lemma within_capacity_with_container [simp]:
  "within_capacity n (with_container p xs) = within_capacity n p"
  by (induction p) simp_all

lemma within_capacity_not_full:
  "within_capacity n p \<Longrightarrow> length (container p) < n \<Longrightarrow> \<not> IQueue_full p"
proof (induction p)
  case (SizeLimitedQueue p maxSize)
  have "int (length (container p)) < sint maxSize"
    using SizeLimitedQueue.prems by simp
  moreover have "int (length (container p)) < 2 ^ 31"
    using calculation sint_cint_less [of maxSize] by linarith
  ultimately have "\<not> maxSize \<le>s IQueue_size p"
    by (simp add: word_sle_eq IQueue_size_container sint_of_nat_small)
  then show ?case
    using SizeLimitedQueue by simp
qed simp_all

lemma produce_all_within_capacity:
  "within_capacity (length (container p) + length vs) p \<Longrightarrow>
   produce_all p vs = (replicate (length vs) True, with_container p (container p @ vs))"
proof (induction vs arbitrary: p)
  case Nil
  then show ?case by simp
next
  case (Cons v vs)
  have nf: "\<not> IQueue_full p"
    using Cons.prems by (intro within_capacity_not_full [of "length (container p) + length (v # vs)"]) simp_all
  let ?p' = "with_container p (container p @ [v])"
  have "within_capacity (length (container ?p') + length vs) ?p'"
    using Cons.prems by simp
  from Cons.IH [OF this] show ?case
    using nf by (simp add: IQueue_produce_container)
qed

lemma produce_all_successes:
  "produce_all p vs = (replicate (length vs) True, p') \<Longrightarrow>
   p' = with_container p (container p @ vs)"
proof (induction vs arbitrary: p)
  case Nil
  then show ?case by simp
next
  case (Cons v vs)
  obtain r q where step: "IQueue_produce p v = (r, q)"
    by (cases "IQueue_produce p v")
  have rest: "produce_all q vs = (replicate (length vs) True, p')" and "r"
    using Cons.prems step by (auto split: prod.splits)
  then have q: "q = with_container p (container p @ [v])"
    using step by (simp add: IQueue_produce_container split: if_splits)
  have "p' = with_container q (container q @ vs)"
    using Cons.IH [OF rest] .
  then show ?case
    by (simp add: q)
qed

lemma consume_times_container:
  "n \<le> length (container p) \<Longrightarrow>
   consume_times n p v = Inr (replicate n True, with_container p (drop n (container p)))"
proof (induction n arbitrary: p v)
  case 0
  then show ?case by simp
next
  case (Suc n)
  then have ne: "container p \<noteq> []" by auto
  let ?p' = "with_container p (tl (container p))"
  have "n \<le> length (container ?p')"
    using Suc.prems by simp
  from Suc.IH [OF this] show ?case
    using ne by (simp add: IQueue_consume_container drop_Suc)
qed

section \<open>Facts about the strategies\<close>

text \<open>
  The loops are partial functions, so a fact about a call that returns is proved by
  induction over the unfoldings of the loop. The \<^verbatim>\<open>produce\<close> and \<^verbatim>\<open>consume\<close> of a
  strategy are \<^verbatim>\<open>const\<close> and the flag is not \<^verbatim>\<open>mutable\<close>: none of them writes it.
\<close>

lemma BruteForce_produce_loop_stop:
  assumes "BruteForce_produce_loop v s c = Some s'"
  shows "stop s' = stop s"
proof -
  define P where "P = (\<lambda>(v :: cint) (s :: ProduceConsumeStrategy) (c :: bool)
       (s' :: ProduceConsumeStrategy). stop s' = stop s)"
  have "P v s c s'"
  proof (rule BruteForce_produce_loop.raw_induct [OF _ assms])
    fix loop v s c s'
    assume ih: "\<And>v s c s'. loop v s c = Some s' \<Longrightarrow> P v s c s'"
      and eq: "(if \<not> stop s \<and> \<not> c
        then loop v (s\<lparr>pQueue := snd (IQueue_produce (pQueue s) v)\<rparr>)
               (fst (IQueue_produce (pQueue s) v))
        else Some s) = Some s'"
    show "P v s c s'"
    proof (cases "\<not> stop s \<and> \<not> c")
      case True
      then have "loop v (s\<lparr>pQueue := snd (IQueue_produce (pQueue s) v)\<rparr>)
               (fst (IQueue_produce (pQueue s) v)) = Some s'"
        using eq by simp
      from ih [OF this] show ?thesis by (simp add: P_def)
    next
      case False
      then show ?thesis using eq by (auto simp: P_def)
    qed
  qed
  then show ?thesis by (simp add: P_def)
qed

lemma BruteForce_consume_loop_stop:
  assumes "BruteForce_consume_loop s v c = Some (Inr (r, s'))"
  shows "stop s' = stop s"
proof -
  define P where "P = (\<lambda>(s :: ProduceConsumeStrategy) (v :: cint) (c :: bool)
       (res :: fault + cint \<times> ProduceConsumeStrategy).
     case res of Inl e \<Rightarrow> True | Inr (r, s') \<Rightarrow> stop s' = stop s)"
  have "P s v c (Inr (r, s'))"
  proof (rule BruteForce_consume_loop.raw_induct [OF _ assms])
    fix loop s v c res
    assume ih: "\<And>s v c res. loop s v c = Some res \<Longrightarrow> P s v c res"
      and eq: "(if \<not> stop s \<and> \<not> c
        then case IQueue_consume (pQueue s) v of
             Inl e \<Rightarrow> Some (Inl e)
             | Inr (r, v', p') \<Rightarrow> loop (s\<lparr>pQueue := p'\<rparr>) v' r
        else Some (Inr (v, s))) = Some res"
    show "P s v c res"
    proof (cases "\<not> stop s \<and> \<not> c")
      case False
      then show ?thesis using eq by (auto simp: P_def)
    next
      case True
      show ?thesis
      proof (cases "IQueue_consume (pQueue s) v")
        case (Inl e)
        then show ?thesis using eq True by (auto simp: P_def)
      next
        case (Inr t)
        obtain b v' p' where t: "t = (b, v', p')" by (cases t)
        have "loop (s\<lparr>pQueue := p'\<rparr>) v' b = Some res"
          using eq True Inr t by simp
        from ih [OF this] show ?thesis
          by (auto simp: P_def split: sum.splits)
      qed
    qed
  qed
  then show ?thesis by (simp add: P_def)
qed

lemma SleepProduceConsume_produce_stop:
  assumes "SleepProduceConsume_produce v s = Some s'"
  shows "stop s' = stop s"
proof -
  define P where "P = (\<lambda>(v :: cint) (s :: SleepProduceConsume)
       (s' :: SleepProduceConsume). stop s' = stop s)"
  have "P v s s'"
  proof (rule SleepProduceConsume_produce.raw_induct [OF _ assms])
    fix loop v s s'
    assume ih: "\<And>v s s'. loop v s = Some s' \<Longrightarrow> P v s s'"
      and eq: "(if \<not> stop s
        then if fst (IQueue_produce (pQueue s) v)
             then Some (s\<lparr>pQueue := snd (IQueue_produce (pQueue s) v)\<rparr>)
             else loop v (s\<lparr>pQueue := snd (IQueue_produce (pQueue s) v)\<rparr>)
        else Some s) = Some s'"
    show "P v s s'"
    proof (cases "\<not> stop s \<and> \<not> fst (IQueue_produce (pQueue s) v)")
      case True
      then have "loop v (s\<lparr>pQueue := snd (IQueue_produce (pQueue s) v)\<rparr>) = Some s'"
        using eq by simp
      from ih [OF this] show ?thesis by (simp add: P_def)
    next
      case False
      then show ?thesis using eq by (auto simp: P_def split: if_splits)
    qed
  qed
  then show ?thesis by (simp add: P_def)
qed

lemma Sleep_consume_loop_stop:
  assumes "Sleep_consume_loop s v = Some (Inr (r, s'))"
  shows "stop s' = stop s"
proof -
  define P where "P = (\<lambda>(s :: SleepProduceConsume) (v :: cint)
       (res :: fault + cint \<times> SleepProduceConsume).
     case res of Inl e \<Rightarrow> True | Inr (r, s') \<Rightarrow> stop s' = stop s)"
  have "P s v (Inr (r, s'))"
  proof (rule Sleep_consume_loop.raw_induct [OF _ assms])
    fix loop s v res
    assume ih: "\<And>s v res. loop s v = Some res \<Longrightarrow> P s v res"
      and eq: "(if \<not> stop s
        then case IQueue_consume (pQueue s) v of
             Inl e \<Rightarrow> Some (Inl e)
             | Inr (r, v', p') \<Rightarrow>
                 if r then Some (Inr (v', s\<lparr>pQueue := p'\<rparr>))
                 else loop (s\<lparr>pQueue := p'\<rparr>) v'
        else Some (Inl MissingReturn)) = Some res"
    show "P s v res"
    proof (cases "stop s")
      case True
      then show ?thesis using eq by (auto simp: P_def)
    next
      case False
      show ?thesis
      proof (cases "IQueue_consume (pQueue s) v")
        case (Inl e)
        then show ?thesis using eq False by (auto simp: P_def)
      next
        case (Inr t)
        obtain b v' p' where t: "t = (b, v', p')" by (cases t)
        show ?thesis
        proof (cases b)
          case True
          then show ?thesis using eq False Inr t by (auto simp: P_def)
        next
          case nb: False
          then have "loop (s\<lparr>pQueue := p'\<rparr>) v' = Some res"
            using eq False Inr t by simp
          from ih [OF this] show ?thesis
            by (auto simp: P_def split: sum.splits)
        qed
      qed
    qed
  qed
  then show ?thesis by (simp add: P_def)
qed

lemma produce_pred_stop: "stop (snd (produce_pred v s)) = stop s"
  by (simp add: produce_pred_def Let_def split: prod.splits)

lemma WaitProduceConsume_produce_stop: "stop (snd (WaitProduceConsume_produce t v s)) = stop s"
  using produce_pred_stop [of v s]
  by (auto simp: WaitProduceConsume_produce_def split: prod.splits bool.splits)

lemma consume_pred_stop: "consume_pred s v = Inr (b, r, s') \<Longrightarrow> stop s' = stop s"
  by (auto simp: consume_pred_def Let_def split: if_splits sum.splits prod.splits)

lemma WaitProduceConsume_consume_stop:
  "WaitProduceConsume_consume t s = Inr (st, r, s') \<Longrightarrow> stop s' = stop s"
  by (auto simp: WaitProduceConsume_consume_def dest: consume_pred_stop
           split: sum.splits prod.splits bool.splits)

lemma fold_setStop: "stop (fold setStop bs s) = last (stop s # bs)"
  by (induction bs arbitrary: s) (simp_all add: setStop_def)

text \<open>
  Called with the flag set, \<^verbatim>\<open>SleepProduceConsume::consume\<close> reaches its closing brace
  whatever the queue holds, and \<^verbatim>\<open>BruteForceProduceConsume::consume\<close> never enters its
  loop when \<^verbatim>\<open>consumed\<close> holds true on entry.
\<close>

lemma SleepProduceConsume_consume_stopped:
  "stop s \<Longrightarrow> SleepProduceConsume_consume s = Some (Inl MissingReturn)"
  by (simp add: SleepProduceConsume_consume_def Sleep_consume_loop.simps)

lemma BruteForceProduceConsume_consume_flag_set:
  "BruteForceProduceConsume_consume True s = Some (Inr (0, s))"
  by (simp add: BruteForceProduceConsume_consume_def BruteForce_consume_loop.simps)

text \<open>
  Had \<^verbatim>\<open>consumed\<close> been initialised with false, as \<^verbatim>\<open>produced\<close> is in
  \<^verbatim>\<open>BruteForceProduceConsume::produce\<close>, a return with the flag unset would come from a
  call of the queue's \<^verbatim>\<open>consume\<close> that succeeded, and would hand out its value.
\<close>

lemma BruteForce_consume_loop_removes:
  assumes "BruteForce_consume_loop s v c = Some (Inr (r, s'))" "\<not> stop s" "\<not> c"
  shows "IQueue_consume (pQueue s) v = Inr (True, r, pQueue s') \<and> \<not> stop s'"
proof -
  define P where "P = (\<lambda>(s :: ProduceConsumeStrategy) (v :: cint) (c :: bool)
       (res :: fault + cint \<times> ProduceConsumeStrategy).
     case res of Inl e \<Rightarrow> True
      | Inr (r, s') \<Rightarrow> stop s' = stop s \<and>
          (stop s \<or> c \<longrightarrow> r = v \<and> s' = s) \<and>
          (\<not> stop s \<and> \<not> c \<longrightarrow> IQueue_consume (pQueue s) v = Inr (True, r, pQueue s')))"
  have "P s v c (Inr (r, s'))"
  proof (rule BruteForce_consume_loop.raw_induct [OF _ assms(1)])
    fix loop s v c res
    assume ih: "\<And>s v c res. loop s v c = Some res \<Longrightarrow> P s v c res"
      and eq: "(if \<not> stop s \<and> \<not> c
        then case IQueue_consume (pQueue s) v of
             Inl e \<Rightarrow> Some (Inl e)
             | Inr (r, v', p') \<Rightarrow> loop (s\<lparr>pQueue := p'\<rparr>) v' r
        else Some (Inr (v, s))) = Some res"
    show "P s v c res"
    proof (cases "\<not> stop s \<and> \<not> c")
      case False
      then have "res = Inr (v, s)" using eq by auto
      then show ?thesis using False by (auto simp: P_def)
    next
      case True
      show ?thesis
      proof (cases "IQueue_consume (pQueue s) v")
        case (Inl e)
        then show ?thesis using eq True by (auto simp: P_def)
      next
        case (Inr t)
        obtain b v' p' where t: "t = (b, v', p')" by (cases t)
        have call: "loop (s\<lparr>pQueue := p'\<rparr>) v' b = Some res"
          using eq True Inr t by simp
        note step = ih [OF call]
        show ?thesis
        proof (cases b)
          case True
          then show ?thesis using step Inr t \<open>\<not> stop s \<and> \<not> c\<close>
            by (auto simp: P_def split: sum.splits)
        next
          case False
          then have "v' = v" "p' = pQueue s"
            using IQueue_consume_fails_unchanged [of "pQueue s" v v' p'] Inr t by simp_all
          then show ?thesis using step Inr t False \<open>\<not> stop s \<and> \<not> c\<close>
            by (auto simp: P_def split: sum.splits)
        qed
      qed
    qed
  qed
  then show ?thesis
    using assms(2,3) by (simp add: P_def)
qed

section \<open>The queue core\<close>

text \<open>
  C1. On every non-empty container \<^verbatim>\<open>Queue::consume\<close> succeeds, hands out the element at
  the back, which is the one \<^verbatim>\<open>Queue::produce\<close> inserted last, and discards the element
  at the front.
\<close>

theorem Queue_consume_back_pop_front:
  "IQueue_produce (Queue q) x = (True, Queue (q @ [x])) \<and>
   IQueue_consume (Queue (q @ [x])) v = Inr (True, x, Queue (tl (q @ [x]))) \<and>
   (q \<noteq> [] \<longrightarrow> IQueue_consume (Queue q) v = Inr (True, last q, Queue (tl q)))"
  by simp

theorem Queue_consume_back_pop_front_witness:
  "[1, 2, 3 :: cint] \<noteq> [] \<and>
   IQueue_consume (Queue [1, 2, 3]) 0 = Inr (True, 3, Queue [2, 3])"
  using Queue_consume_back_pop_front [of "[1, 2, 3]" 0 0] by simp

section \<open>The decorators\<close>

text \<open>
  C5. \<^verbatim>\<open>SafeQueue::consume\<close> asks \<^verbatim>\<open>empty()\<close> first. On an empty chain it returns false,
  writes nothing to the caller's variable and leaves the chain as it was; the inner
  \<^verbatim>\<open>consume\<close> is not reached, which on an empty \<^verbatim>\<open>Queue\<close> would be undefined. On a
  non-empty chain the inner \<^verbatim>\<open>consume\<close> runs. \<^verbatim>\<open>produce\<close> is the inner \<^verbatim>\<open>produce\<close>.
\<close>

theorem SafeQueue_consume_checks_empty:
  "(IQueue_empty p \<longrightarrow> IQueue_consume (SafeQueue p) v = Inr (False, v, SafeQueue p)) \<and>
   (\<not> IQueue_empty p \<longrightarrow>
      IQueue_consume (SafeQueue p) v =
        Inr (True, last (container p), SafeQueue (with_container p (tl (container p))))) \<and>
   IQueue_produce (SafeQueue p) x = (fst (IQueue_produce p x), SafeQueue (snd (IQueue_produce p x)))"
  by (simp add: IQueue_empty_container IQueue_consume_container split: prod.splits)


theorem SafeQueue_consume_checks_empty_witness:
  "IQueue_empty (Queue []) \<and>
   IQueue_consume (SafeQueue (Queue [])) 5 = Inr (False, 5, SafeQueue (Queue [])) \<and>
   IQueue_consume (Queue []) 5 = Inl EmptyContainerAccess \<and>
   \<not> IQueue_empty (Queue [7, 8]) \<and>
   IQueue_consume (SafeQueue (Queue [7, 8])) 5 = Inr (True, 8, SafeQueue (Queue [8])) \<and>
   IQueue_produce (SafeQueue (Queue [7])) 8 = (True, SafeQueue (Queue [7, 8]))"
  using SafeQueue_consume_checks_empty [of "Queue []" 5 0]
        SafeQueue_consume_checks_empty [of "Queue [7, 8]" 5 0]
        SafeQueue_consume_checks_empty [of "Queue [7]" 5 8]
  by simp


text \<open>
  C6. \<^verbatim>\<open>SizeLimitedQueue::full\<close> holds exactly when the inner size has reached the
  capacity \<open>K\<close> or the inner object is full; on a full queue \<^verbatim>\<open>produce\<close> returns false
  and inserts nothing; and when \<open>K\<close> calls of \<^verbatim>\<open>produce\<close> in a row have succeeded on a
  queue that was empty, the next call fails and the size is \<open>K\<close>, before and after it.
\<close>

theorem SizeLimitedQueue_refuses_at_capacity:
  "IQueue_full (SizeLimitedQueue p K) = (K \<le>s IQueue_size p \<or> IQueue_full p) \<and>
   (IQueue_full (SizeLimitedQueue p K) \<longrightarrow>
      IQueue_produce (SizeLimitedQueue p K) v = (False, SizeLimitedQueue p K)) \<and>
   (IQueue_empty p \<and> 0 \<le>s K \<and> length vs = nat (sint K) \<and>
    produce_all (SizeLimitedQueue p K) vs = (replicate (length vs) True, q) \<longrightarrow>
      IQueue_produce q v = (False, q) \<and> IQueue_size q = K)"
proof (intro conjI impI)
  show "IQueue_full (SizeLimitedQueue p K) = (K \<le>s IQueue_size p \<or> IQueue_full p)"
    by simp
next
  assume "IQueue_full (SizeLimitedQueue p K)"
  then show "IQueue_produce (SizeLimitedQueue p K) v = (False, SizeLimitedQueue p K)"
    by simp
next
  assume a: "IQueue_empty p \<and> 0 \<le>s K \<and> length vs = nat (sint K) \<and>
    produce_all (SizeLimitedQueue p K) vs = (replicate (length vs) True, q)"
  then have q: "q = SizeLimitedQueue (with_container p vs) K"
    using produce_all_successes [of "SizeLimitedQueue p K" vs q]
    by (simp add: IQueue_empty_container)
  have size: "IQueue_size q = K"
    using a by (simp add: q IQueue_size_container of_nat_nat_sint)
  then have "IQueue_full q"
    by (simp add: q)
  then show "IQueue_produce q v = (False, q)"
    by (simp add: IQueue_produce_container)
  show "IQueue_size q = K"
    by (rule size)
qed


theorem SizeLimitedQueue_refuses_at_capacity_witness:
  "IQueue_full (SizeLimitedQueue (Queue [4, 5]) 2) \<and>
   IQueue_produce (SizeLimitedQueue (Queue [4, 5]) 2) 6 = (False, SizeLimitedQueue (Queue [4, 5]) 2) \<and>
   IQueue_empty (Queue []) \<and> (0 :: cint) \<le>s 2 \<and> length [4, 5 :: cint] = nat (sint (2 :: cint)) \<and>
   produce_all (SizeLimitedQueue (Queue []) 2) [4, 5] =
     (replicate (length [4, 5 :: cint]) True, SizeLimitedQueue (Queue [4, 5]) 2) \<and>
   IQueue_size (SizeLimitedQueue (Queue [4, 5]) 2) = 2"
proof -
  have full: "IQueue_full (SizeLimitedQueue (Queue [4, 5]) 2)"
    by (simp add: word_sle_eq)
  have run: "IQueue_empty (Queue []) \<and> (0 :: cint) \<le>s 2 \<and>
      length [4, 5 :: cint] = nat (sint (2 :: cint)) \<and>
      produce_all (SizeLimitedQueue (Queue []) 2) [4, 5] =
        (replicate (length [4, 5 :: cint]) True, SizeLimitedQueue (Queue [4, 5]) 2)"
    by (simp add: word_sle_eq numeral_2_eq_2)
  show ?thesis
    using full run
      SizeLimitedQueue_refuses_at_capacity
        [of "Queue [4, 5]" 2 6 "[4, 5]" "SizeLimitedQueue (Queue [4, 5]) 2"]
      SizeLimitedQueue_refuses_at_capacity
        [of "Queue []" 2 6 "[4, 5]" "SizeLimitedQueue (Queue [4, 5]) 2"]
    by blast
qed


text \<open>
  C8, as the claim states it: a capacity of zero and a negative capacity are not
  rejected; the constructor returns the decorator.
\<close>

theorem SizeLimitedQueue_new_rejected_counterexample:
  "SizeLimitedQueue_new (Queue []) 0 = Inr (SizeLimitedQueue (Queue []) 0) \<and>
   SizeLimitedQueue_new (Queue []) (- 1) = Inr (SizeLimitedQueue (Queue []) (- 1))"
  by (simp add: SizeLimitedQueue_new_def)


text \<open>
  C8, amended. The constructor accepts every capacity and returns the decorator that
  holds it. With a capacity that is not positive, over an inner queue whose size is not
  negative, the decorator is full and \<^verbatim>\<open>produce\<close> returns false and inserts nothing.
\<close>

theorem SizeLimitedQueue_new_accepts:
  "SizeLimitedQueue_new p K = Inr (SizeLimitedQueue p K) \<and>
   (K \<le>s 0 \<and> 0 \<le>s IQueue_size p \<longrightarrow>
      IQueue_full (SizeLimitedQueue p K) \<and>
      IQueue_produce (SizeLimitedQueue p K) v = (False, SizeLimitedQueue p K))"
  by (auto simp: SizeLimitedQueue_new_def word_sle_eq)


theorem SizeLimitedQueue_new_accepts_witness:
  "SizeLimitedQueue_new (Queue []) (- 3) = Inr (SizeLimitedQueue (Queue []) (- 3)) \<and>
   (- 3 :: cint) \<le>s 0 \<and> 0 \<le>s IQueue_size (Queue []) \<and>
   IQueue_full (SizeLimitedQueue (Queue []) (- 3)) \<and>
   IQueue_produce (SizeLimitedQueue (Queue []) (- 3)) 9 = (False, SizeLimitedQueue (Queue []) (- 3))"
proof -
  have "(- 3 :: cint) \<le>s 0 \<and> 0 \<le>s IQueue_size (Queue [])"
    by (simp add: word_sle_eq)
  then show ?thesis
    using SizeLimitedQueue_new_accepts [of "Queue []" "- 3" 9] by blast
qed


text \<open>
  C9. On an empty chain, \<open>N\<close> values within the capacity of the chain are all accepted,
  the \<open>N\<close> calls of \<^verbatim>\<open>consume\<close> that follow all succeed, and the chain is then the empty
  chain it was at the start.
\<close>

theorem round_trip:
  "IQueue_empty p \<and> within_capacity (length vs) p \<longrightarrow>
     fst (produce_all p vs) = replicate (length vs) True \<and>
     consume_times (length vs) (snd (produce_all p vs)) v = Inr (replicate (length vs) True, p) \<and>
     IQueue_empty p"
proof (intro impI)
  assume a: "IQueue_empty p \<and> within_capacity (length vs) p"
  then have c: "container p = []"
    by (simp add: IQueue_empty_container)
  have pa: "produce_all p vs = (replicate (length vs) True, with_container p vs)"
    using a c produce_all_within_capacity [of p vs] by simp
  have "consume_times (length vs) (with_container p vs) v =
          Inr (replicate (length vs) True, with_container p [])"
    using consume_times_container [of "length vs" "with_container p vs" v] by simp
  moreover have "with_container p [] = p"
    using with_container_same [of p] by (simp only: c)
  ultimately show "fst (produce_all p vs) = replicate (length vs) True \<and>
     consume_times (length vs) (snd (produce_all p vs)) v = Inr (replicate (length vs) True, p) \<and>
     IQueue_empty p"
    using a by (simp add: pa)
qed


theorem round_trip_witness:
  "IQueue_empty (SizeLimitedQueue (SafeQueue (Queue [])) 3) \<and>
   within_capacity (length [7, 8 :: cint]) (SizeLimitedQueue (SafeQueue (Queue [])) 3) \<and>
   produce_all (SizeLimitedQueue (SafeQueue (Queue [])) 3) [7, 8] =
     ([True, True], SizeLimitedQueue (SafeQueue (Queue [7, 8])) 3) \<and>
   consume_times 2 (SizeLimitedQueue (SafeQueue (Queue [7, 8])) 3) 0 =
     Inr ([True, True], SizeLimitedQueue (SafeQueue (Queue [])) 3)"
proof -
  have pre: "IQueue_empty (SizeLimitedQueue (SafeQueue (Queue [])) 3) \<and>
      within_capacity (length [7, 8 :: cint]) (SizeLimitedQueue (SafeQueue (Queue [])) 3)"
    by simp
  have run: "produce_all (SizeLimitedQueue (SafeQueue (Queue [])) 3) [7, 8] =
     ([True, True], SizeLimitedQueue (SafeQueue (Queue [7, 8])) 3)"
    by (simp add: word_sle_eq)
  show ?thesis
    using pre run round_trip [of "SizeLimitedQueue (SafeQueue (Queue [])) 3" "[7, 8]" 0]
    by (simp add: numeral_2_eq_2)
qed

section \<open>The strategies and the builder\<close>

text \<open>
  C2. \<^verbatim>\<open>WaitProduceConsume::produce\<close> and \<^verbatim>\<open>consume\<close> both wait on
  \<^verbatim>\<open>onProduceToEmpty\<close>, while \<^verbatim>\<open>consume\<close> notifies \<^verbatim>\<open>onConsumeFromFull\<close>, on which no
  thread ever waits. Over a queue of capacity 1 that holds one element: thread 1 calls
  \<^verbatim>\<open>produce(2)\<close> and blocks; thread 2 calls \<^verbatim>\<open>consume()\<close>, which takes the element, finds
  nobody to notify and returns. The queue is no longer full and the predicate of thread 1
  would now hold, but thread 1 is still in the list of \<^verbatim>\<open>onProduceToEmpty\<close>: the
  wake-up the claim promises is not sent.
\<close>

theorem WaitProduceConsume_producer_not_woken:
  "WaitProduceConsume_produce 1 2
     \<lparr>pQueue = SizeLimitedQueue (SafeQueue (Queue [1])) 1, stop = False,
      onConsumeFromFull = [], onProduceToEmpty = []\<rparr> =
     (Blocked,
      \<lparr>pQueue = SizeLimitedQueue (SafeQueue (Queue [1])) 1, stop = False,
       onConsumeFromFull = [], onProduceToEmpty = [1]\<rparr>) \<and>
   WaitProduceConsume_consume 2
     \<lparr>pQueue = SizeLimitedQueue (SafeQueue (Queue [1])) 1, stop = False,
      onConsumeFromFull = [], onProduceToEmpty = [1]\<rparr> =
     Inr (Returned, 1,
      \<lparr>pQueue = SizeLimitedQueue (SafeQueue (Queue [])) 1, stop = False,
       onConsumeFromFull = [], onProduceToEmpty = [1]\<rparr>) \<and>
   \<not> IQueue_full (SizeLimitedQueue (SafeQueue (Queue [])) 1) \<and>
   fst (produce_pred 2
     \<lparr>pQueue = SizeLimitedQueue (SafeQueue (Queue [])) 1, stop = False,
      onConsumeFromFull = [], onProduceToEmpty = [1]\<rparr>)"
  by (simp add: WaitProduceConsume_produce_def WaitProduceConsume_consume_def
      produce_pred_def consume_pred_def notify_one_def wait_on_def word_sle_eq)

text \<open>
  C3. With \<^verbatim>\<open>consumed\<close> holding true on entry, \<^verbatim>\<open>BruteForceProduceConsume::consume\<close>
  returns 0 with the flag unset and the queue, which holds 7, untouched: no removal
  succeeded and the returned value is not a removed one.
\<close>

theorem BruteForce_consume_skips_loop:
  "BruteForceProduceConsume_consume True \<lparr>pQueue = SafeQueue (Queue [7]), stop = False\<rparr> =
     Some (Inr (0, \<lparr>pQueue = SafeQueue (Queue [7]), stop = False\<rparr>))"
  by (simp add: BruteForceProduceConsume_consume_def BruteForce_consume_loop.simps)

text \<open>
  C4. Called with the flag set, \<^verbatim>\<open>SleepProduceConsume::consume\<close> skips its loop and
  reaches the end of the function without a \<^verbatim>\<open>return\<close>: no defined \<^verbatim>\<open>int\<close> comes
  back.
\<close>

theorem SleepProduceConsume_consume_no_return:
  "SleepProduceConsume_consume
     \<lparr>pQueue = SizeLimitedQueue (SafeQueue (Queue [7])) 4, stop = True,
      sleep = this_thread_yield\<rparr> = Some (Inl MissingReturn)"
  by (simp add: SleepProduceConsume_consume_def Sleep_consume_loop.simps)

text \<open>
  C7, as the claim states it: after \<^verbatim>\<open>setStop(true)\<close> the flag is true, and the call
  \<^verbatim>\<open>setStop(false)\<close> that follows makes it false again.
\<close>

theorem setStop_reversed_counterexample:
  "stop (setStop True (ProduceConsumeStrategy_new (Queue []))) \<and>
   \<not> stop (setStop False (setStop True (ProduceConsumeStrategy_new (Queue []))))"
  by (simp add: setStop_def ProduceConsumeStrategy_new_def)

text \<open>
  C7, amended. \<^verbatim>\<open>setStop(b)\<close> stores \<open>b\<close>: after a sequence of calls the flag is the
  argument of the last one, so after \<^verbatim>\<open>setStop(true)\<close> it stays true through every
  sequence of further calls that all pass true; calling \<^verbatim>\<open>setStop\<close> twice with the same
  argument is calling it once; and the \<^verbatim>\<open>produce\<close> and \<^verbatim>\<open>consume\<close> of the three
  strategies leave the flag as it is.
\<close>

theorem setStop_latest_call:
  "stop (fold setStop bs s) = last (stop s # bs) \<and>
   (set bs \<subseteq> {True} \<longrightarrow> stop (fold setStop bs (setStop True s))) \<and>
   setStop b (setStop b s) = setStop b s \<and>
   (BruteForceProduceConsume_produce v s1 = Some s1' \<longrightarrow> stop s1' = stop s1) \<and>
   (BruteForceProduceConsume_consume c s1 = Some (Inr (r1, s1'')) \<longrightarrow> stop s1'' = stop s1) \<and>
   (SleepProduceConsume_produce v s2 = Some s2' \<longrightarrow> stop s2' = stop s2) \<and>
   (SleepProduceConsume_consume s2 = Some (Inr (r2, s2'')) \<longrightarrow> stop s2'' = stop s2) \<and>
   stop (snd (WaitProduceConsume_produce t v s3)) = stop s3 \<and>
   (WaitProduceConsume_consume t s3 = Inr (st, r3, s3') \<longrightarrow> stop s3' = stop s3)"
proof -
  have "stop (fold setStop bs (setStop True s))" if "set bs \<subseteq> {True}"
  proof -
    have "last (True # bs) \<in> set (True # bs)"
      by (rule last_in_set) simp
    then have "last (True # bs)"
      using that by auto
    then show ?thesis
      using fold_setStop [of bs "setStop True s"] by (simp add: setStop_def)
  qed
  then show ?thesis
    using fold_setStop [of bs s] WaitProduceConsume_produce_stop [of t v s3]
    by (auto simp: setStop_def BruteForceProduceConsume_produce_def
          BruteForceProduceConsume_consume_def SleepProduceConsume_consume_def
        dest: BruteForce_produce_loop_stop BruteForce_consume_loop_stop
          SleepProduceConsume_produce_stop Sleep_consume_loop_stop
          WaitProduceConsume_consume_stop)
qed

theorem setStop_latest_call_witness:
  "set [True, True] \<subseteq> {True} \<and>
   stop (fold setStop [True, True] (setStop True (ProduceConsumeStrategy_new (Queue [])))) \<and>
   stop (fold setStop [True, False] (ProduceConsumeStrategy_new (Queue []))) = False \<and>
   BruteForceProduceConsume_produce 5 \<lparr>pQueue = Queue [3], stop = False\<rparr> =
     Some \<lparr>pQueue = Queue [3, 5], stop = False\<rparr> \<and>
   BruteForceProduceConsume_consume False \<lparr>pQueue = Queue [3], stop = False\<rparr> =
     Some (Inr (3, \<lparr>pQueue = Queue [], stop = False\<rparr>)) \<and>
   SleepProduceConsume_produce 5 \<lparr>pQueue = Queue [3], stop = False, sleep = this_thread_yield\<rparr> =
     Some \<lparr>pQueue = Queue [3, 5], stop = False, sleep = this_thread_yield\<rparr> \<and>
   SleepProduceConsume_consume \<lparr>pQueue = Queue [3], stop = False, sleep = this_thread_yield\<rparr> =
     Some (Inr (3, \<lparr>pQueue = Queue [], stop = False, sleep = this_thread_yield\<rparr>)) \<and>
   WaitProduceConsume_consume 1 (WaitProduceConsume_new (Queue [3])) =
     Inr (Returned, 3, WaitProduceConsume_new (Queue [])) \<and>
   stop (WaitProduceConsume_new (Queue [])) = stop (WaitProduceConsume_new (Queue [3]))"
proof -
  have a: "set [True, True] \<subseteq> {True}"
    by simp
  have b: "BruteForceProduceConsume_produce 5 \<lparr>pQueue = Queue [3], stop = False\<rparr> =
     Some \<lparr>pQueue = Queue [3, 5], stop = False\<rparr>"
    by (simp add: BruteForceProduceConsume_produce_def BruteForce_produce_loop.simps)
  have c: "BruteForceProduceConsume_consume False \<lparr>pQueue = Queue [3], stop = False\<rparr> =
     Some (Inr (3, \<lparr>pQueue = Queue [], stop = False\<rparr>))"
    by (simp add: BruteForceProduceConsume_consume_def BruteForce_consume_loop.simps)
  have d: "SleepProduceConsume_produce 5
       \<lparr>pQueue = Queue [3], stop = False, sleep = this_thread_yield\<rparr> =
     Some \<lparr>pQueue = Queue [3, 5], stop = False, sleep = this_thread_yield\<rparr>"
    by (simp add: SleepProduceConsume_produce.simps)
  have e: "SleepProduceConsume_consume
       \<lparr>pQueue = Queue [3], stop = False, sleep = this_thread_yield\<rparr> =
     Some (Inr (3, \<lparr>pQueue = Queue [], stop = False, sleep = this_thread_yield\<rparr>))"
    by (simp add: SleepProduceConsume_consume_def Sleep_consume_loop.simps)
  have f: "WaitProduceConsume_consume 1 (WaitProduceConsume_new (Queue [3])) =
     Inr (Returned, 3, WaitProduceConsume_new (Queue []))"
    by (simp add: WaitProduceConsume_consume_def consume_pred_def WaitProduceConsume_new_def)
  have g: "stop (fold setStop [True, False] (ProduceConsumeStrategy_new (Queue []))) = False"
    using setStop_latest_call [of "[True, False]" "ProduceConsumeStrategy_new (Queue [])"]
    by simp
  show ?thesis
    using a b c d e f g
      setStop_latest_call [of "[True, True]" "ProduceConsumeStrategy_new (Queue [])" True
        5 "\<lparr>pQueue = Queue [3], stop = False\<rparr>" "\<lparr>pQueue = Queue [3, 5], stop = False\<rparr>"
        False 3 "\<lparr>pQueue = Queue [], stop = False\<rparr>"
        "\<lparr>pQueue = Queue [3], stop = False, sleep = this_thread_yield\<rparr>"
        "\<lparr>pQueue = Queue [3, 5], stop = False, sleep = this_thread_yield\<rparr>"
        3 "\<lparr>pQueue = Queue [], stop = False, sleep = this_thread_yield\<rparr>"
        1 "WaitProduceConsume_new (Queue [3])" Returned 3 "WaitProduceConsume_new (Queue [])"]
    by blast
qed

text \<open>
  C10. \<^verbatim>\<open>setStrategy\<close> always stores a \<^verbatim>\<open>SleepProduceConsume\<close> whose sleep policy is
  \<^verbatim>\<open>sleep_for\<close> 100 microseconds and whose queue is the tester's \<^verbatim>\<open>Queue\<close> itself, under
  no decorator; when that queue is empty, \<^verbatim>\<open>consume\<close> of this strategy reaches
  \<^verbatim>\<open>Queue::consume\<close> on the empty container.
\<close>

theorem setStrategy_binds_queue_core:
  "strategy (builded (setStrategy b)) =
     Some (Sleep \<lparr>pQueue = Queue (requestsQueue (builded b)), stop = False,
                  sleep = sleep_for_microseconds 100\<rparr>) \<and>
   (requestsQueue (builded b) = [] \<longrightarrow>
      SleepProduceConsume_consume
        \<lparr>pQueue = Queue (requestsQueue (builded b)), stop = False,
         sleep = sleep_for_microseconds 100\<rparr> = Some (Inl EmptyContainerAccess))"
  by (simp add: setStrategy_def setSleepStrategy_def SleepProduceConsume_new_def
      SleepProduceConsume_consume_def Sleep_consume_loop.simps)

theorem setStrategy_binds_queue_core_witness:
  "requestsQueue (builded \<lparr>builded = ProducerConsumerTester_new\<rparr>) = [] \<and>
   strategy (builded (setStrategy \<lparr>builded = ProducerConsumerTester_new\<rparr>)) =
     Some (Sleep \<lparr>pQueue = Queue [], stop = False, sleep = sleep_for_microseconds 100\<rparr>) \<and>
   SleepProduceConsume_consume
     \<lparr>pQueue = Queue [], stop = False, sleep = sleep_for_microseconds 100\<rparr> =
     Some (Inl EmptyContainerAccess)"
  using setStrategy_binds_queue_core [of "\<lparr>builded = ProducerConsumerTester_new\<rparr>"]
  by (simp add: ProducerConsumerTester_new_def)

end
